theory Spec2Isabelle
  imports Complex_Main "HOL-Library.Log_Nat"
begin

section \<open>The one-dimensional diffusion notebook\<close>

text \<open>
  The program is the notebook \<^verbatim>\<open>notebooks/diffusion-model.ipynb\<close>: a script of module-level
  assignments followed by one time-stepping loop.

  \<^verbatim>\<open>
  dt = 0.5 * (dx**2/D)                                              (line 202)

  for t in range(0, nt):                                            (line 231)
      C+= D * dt / dx**2 * (np.roll(C, -1) -2*C + np.roll(C,1))     (line 232)
      C[0] = C_left                                                 (line 233)
      C[-1] = C_right                                               (line 234)
  \<close>

  The model is a shallow embedding with explicit state passing. The state is the notebook's
  namespace; every statement is a function from the namespace to an error or the updated
  namespace. The literal settings of the notebook (\<^verbatim>\<open>D = 100\<close>, \<^verbatim>\<open>Lx = 300\<close>, \<^verbatim>\<open>dx = 0.5\<close>,
  \<^verbatim>\<open>C_left = 500\<close>, \<^verbatim>\<open>C_right = 0\<close>, \<^verbatim>\<open>nt = 5000\<close> and the step profile stored in \<^verbatim>\<open>C\<close>) are
  the contents of the namespace when line 202 and the loop run; the model leaves them
  arbitrary, so that every theorem speaks about all settings.

  Numbers. The scalars \<^verbatim>\<open>D\<close>, \<^verbatim>\<open>dt\<close>, \<^verbatim>\<open>dx\<close> are Python floats and the entries of \<^verbatim>\<open>C\<close> are
  \<^verbatim>\<open>float64\<close>: both are IEEE 754 binary64 numbers, and every operation of the two lines rounds.
  The floating-point operations are a parameter of the model (\<open>arith\<close>), so that the general
  statements hold for whatever these operations compute; the binary64 operations themselves
  are defined in \<open>binary64\<close> and are what the concrete runs evaluate. Where Python gives an
  integer to a float operation (\<^verbatim>\<open>D = 100\<close>, \<^verbatim>\<open>C_left = 500\<close>, the factor \<^verbatim>\<open>2\<close>, the exponent \<^verbatim>\<open>2\<close>)
  it converts it to the float of the same value first; the model holds these values as floats.
\<close>

subsection \<open>Errors\<close>

text \<open>
  The exceptions the modelled lines can raise: a float division by zero, the overflow of
  \<^verbatim>\<open>dx**2\<close>, and an index assignment outside the array.
\<close>

datatype error = ZeroDivisionError | OverflowError | IndexError

text \<open>Sequencing of two statements: an exception in the first skips the second.\<close>

definition bind_err :: "error + 'a \<Rightarrow> ('a \<Rightarrow> error + 'b) \<Rightarrow> error + 'b" where
  "bind_err r f = (case r of Inl e \<Rightarrow> Inl e | Inr v \<Rightarrow> f v)"

subsection \<open>Floating-point arithmetic\<close>

text \<open>
  The operations on floats that the two lines use. \<open>fadd\<close>, \<open>fsub\<close>, \<open>fmul\<close> are \<^verbatim>\<open>+\<close>, \<^verbatim>\<open>-\<close>, \<^verbatim>\<open>*\<close>
  on Python floats and, elementwise, on \<^verbatim>\<open>float64\<close> arrays; none of them raises (an overflow
  gives an infinity). \<open>fdiv\<close> is the quotient of \<^verbatim>\<open>/\<close> for a divisor that is not zero and
  \<open>is_zero\<close> the test \<^verbatim>\<open>== 0.0\<close> that \<^verbatim>\<open>/\<close> makes first. \<open>fpow2\<close> is \<^verbatim>\<open>x**2\<close>, with \<open>None\<close> when the
  result overflows. \<open>two\<close> and \<open>half\<close> are the floats \<^verbatim>\<open>2.0\<close> and \<^verbatim>\<open>0.5\<close>.
\<close>

record 'v arith =
  fadd :: "'v \<Rightarrow> 'v \<Rightarrow> 'v"
  fsub :: "'v \<Rightarrow> 'v \<Rightarrow> 'v"
  fmul :: "'v \<Rightarrow> 'v \<Rightarrow> 'v"
  fdiv :: "'v \<Rightarrow> 'v \<Rightarrow> 'v"
  is_zero :: "'v \<Rightarrow> bool"
  fpow2 :: "'v \<Rightarrow> 'v option"
  two :: 'v
  half :: 'v

text \<open>\<^verbatim>\<open>x**2\<close> on a Python float raises \<^verbatim>\<open>OverflowError\<close> when the result is out of range.\<close>

definition float_pow2 :: "'v arith \<Rightarrow> 'v \<Rightarrow> error + 'v" where
  "float_pow2 A a = (case fpow2 A a of None \<Rightarrow> Inl OverflowError | Some p \<Rightarrow> Inr p)"

text \<open>\<^verbatim>\<open>a / b\<close> on Python floats raises \<^verbatim>\<open>ZeroDivisionError\<close> when \<^verbatim>\<open>b\<close> is zero.\<close>

definition float_truediv :: "'v arith \<Rightarrow> 'v \<Rightarrow> 'v \<Rightarrow> error + 'v" where
  "float_truediv A a b = (if is_zero A b then Inl ZeroDivisionError else Inr (fdiv A a b))"

subsection \<open>IEEE 754 binary64\<close>

text \<open>
  A binary64 number is a finite number, an infinity or a NaN. A finite number is held as the
  rational it denotes; the two zeros are one value here (no modelled operation divides by an
  array entry or reads a sign, and \<^verbatim>\<open>==\<close> does not tell the zeros apart).
\<close>

datatype float64 = Finite rat | PInf | NInf | NaN

text \<open>\<open>floor_log2 a q\<close> is the integer part of the binary logarithm of \<open>a / q\<close>, for positive \<open>a\<close>, \<open>q\<close>.\<close>

definition floor_log2 :: "int \<Rightarrow> int \<Rightarrow> int" where
  "floor_log2 a q =
     (let d = bitlen a - bitlen q
      in if q * 2 ^ nat d \<le> a * 2 ^ nat (- d) then d else d - 1)"

text \<open>The integer nearest to \<open>n / d\<close>, a tie going to the even one (\<open>n \<ge> 0\<close>, \<open>d > 0\<close>).\<close>

definition round_half_even :: "int \<Rightarrow> int \<Rightarrow> int" where
  "round_half_even n d =
     (let q = n div d; r = n mod d
      in if 2 * r < d then q else if d < 2 * r then q + 1 else if even q then q else q + 1)"

text \<open>
  Rounding to nearest, ties to even. For a number in the binade \<open>2^e\<close> the result is a multiple
  \<open>m * 2^u\<close> of the unit in the last place, \<open>u = max (e - 52) (-1074)\<close>. A number of magnitude
  \<open>2^1024\<close> or more, or one that rounds up to \<open>2^1024\<close>, becomes an infinity; a number below
  \<open>2^-1075\<close> in magnitude becomes zero.
\<close>

definition round64 :: "rat \<Rightarrow> float64" where
  "round64 r =
     (if r = 0 then Finite 0
      else let (p, q) = quotient_of r;
               a = \<bar>p\<bar>;
               e = floor_log2 a q
           in if 1024 \<le> e then (if 0 < p then PInf else NInf)
              else if e < - 1075 then Finite 0
              else let u = max (e - 52) (- 1074);
                       m = round_half_even (a * 2 ^ nat (- u)) (q * 2 ^ nat u)
                   in if u = 971 \<and> 2 ^ 53 \<le> m then (if 0 < p then PInf else NInf)
                      else Finite (if 0 \<le> u then of_int (sgn p * m) * 2 ^ nat u
                                   else of_int (sgn p * m) / 2 ^ nat (- u)))"

fun float64_neg :: "float64 \<Rightarrow> float64" where
  "float64_neg (Finite a) = Finite (- a)"
| "float64_neg PInf = NInf"
| "float64_neg NInf = PInf"
| "float64_neg NaN = NaN"

fun float64_add :: "float64 \<Rightarrow> float64 \<Rightarrow> float64" where
  "float64_add (Finite a) (Finite b) = round64 (a + b)"
| "float64_add NaN _ = NaN"
| "float64_add _ NaN = NaN"
| "float64_add PInf NInf = NaN"
| "float64_add NInf PInf = NaN"
| "float64_add PInf _ = PInf"
| "float64_add NInf _ = NInf"
| "float64_add _ PInf = PInf"
| "float64_add _ NInf = NInf"

definition float64_sub :: "float64 \<Rightarrow> float64 \<Rightarrow> float64" where
  "float64_sub a b = float64_add a (float64_neg b)"

fun float64_sgn :: "float64 \<Rightarrow> int" where
  "float64_sgn (Finite a) = (if 0 < a then 1 else if a < 0 then - 1 else 0)"
| "float64_sgn PInf = 1"
| "float64_sgn NInf = - 1"
| "float64_sgn NaN = 0"

text \<open>The infinity of the given sign; the sign \<open>0\<close> stands for an invalid operation.\<close>

definition signed_inf :: "int \<Rightarrow> float64" where
  "signed_inf k = (if k = 0 then NaN else if 0 < k then PInf else NInf)"

fun float64_mul :: "float64 \<Rightarrow> float64 \<Rightarrow> float64" where
  "float64_mul (Finite a) (Finite b) = round64 (a * b)"
| "float64_mul NaN _ = NaN"
| "float64_mul _ NaN = NaN"
| "float64_mul a b = signed_inf (float64_sgn a * float64_sgn b)"

text \<open>The quotient, for a divisor that is not zero.\<close>

fun float64_div :: "float64 \<Rightarrow> float64 \<Rightarrow> float64" where
  "float64_div (Finite a) (Finite b) = round64 (a / b)"
| "float64_div NaN _ = NaN"
| "float64_div _ NaN = NaN"
| "float64_div (Finite a) _ = Finite 0"
| "float64_div a (Finite b) = signed_inf (float64_sgn a * float64_sgn (Finite b))"
| "float64_div _ _ = NaN"

text \<open>
  \<^verbatim>\<open>x**2\<close>: the square of an infinity is the positive infinity and that of a NaN a NaN, without
  an exception; a finite \<^verbatim>\<open>x\<close> whose square rounds to an infinity raises. The library function
  behind \<^verbatim>\<open>**\<close> is taken to return the correctly rounded square.
\<close>

fun float64_pow2 :: "float64 \<Rightarrow> float64 option" where
  "float64_pow2 (Finite a) =
     (case round64 (a * a) of Finite b \<Rightarrow> Some (Finite b) | _ \<Rightarrow> None)"
| "float64_pow2 NaN = Some NaN"
| "float64_pow2 _ = Some PInf"

definition binary64 :: "float64 arith" where
  "binary64 =
     \<lparr>fadd = float64_add, fsub = float64_sub, fmul = float64_mul, fdiv = float64_div,
      is_zero = (\<lambda>a. a = Finite 0), fpow2 = float64_pow2, two = Finite 2, half = Finite (1 / 2)\<rparr>"

subsection \<open>The array operations used by the loop\<close>

text \<open>
  \<^verbatim>\<open>np.roll(a, shift)\<close> on a one-dimensional array: with \<^verbatim>\<open>offset = shift % (n or 1)\<close> the
  result is \<^verbatim>\<open>a[n - offset:]\<close> followed by \<^verbatim>\<open>a[:n - offset]\<close>. It returns a new array
  and leaves \<^verbatim>\<open>a\<close> alone.
\<close>

definition roll :: "'a list \<Rightarrow> int \<Rightarrow> 'a list" where
  "roll a shift =
     (let n = length a;
          offset = nat (shift mod int (if n = 0 then 1 else n))
      in drop (n - offset) a @ take (n - offset) a)"

text \<open>
  Elementwise sum and difference of two arrays, and the product of a scalar with an array
  (the scalar is the left operand of every product). The loop applies the first two to
  arrays of one length only.
\<close>

definition arr_add :: "'v arith \<Rightarrow> 'v list \<Rightarrow> 'v list \<Rightarrow> 'v list" where
  "arr_add A a b = map2 (fadd A) a b"

definition arr_sub :: "'v arith \<Rightarrow> 'v list \<Rightarrow> 'v list \<Rightarrow> 'v list" where
  "arr_sub A a b = map2 (fsub A) a b"

definition scal_mul :: "'v arith \<Rightarrow> 'v \<Rightarrow> 'v list \<Rightarrow> 'v list" where
  "scal_mul A c a = map (fmul A c) a"

text \<open>
  \<^verbatim>\<open>a[k] = v\<close> for an integer \<^verbatim>\<open>k\<close>: a negative index counts from the end, and an index
  outside \<^verbatim>\<open>-n .. n-1\<close> raises \<^verbatim>\<open>IndexError\<close>.
\<close>

definition setitem :: "'v list \<Rightarrow> int \<Rightarrow> 'v \<Rightarrow> error + 'v list" where
  "setitem a k v =
     (let n = int (length a)
      in if k < - n \<or> n \<le> k then Inl IndexError
         else Inr (a[nat (if k < 0 then k + n else k) := v]))"

subsection \<open>The namespace\<close>

text \<open>
  One field for each variable of the notebook, \<open>'v\<close> being the type of the floats. \<^verbatim>\<open>t\<close> is the
  loop variable, unbound until the loop has started an iteration. \<^verbatim>\<open>Lx\<close>, \<^verbatim>\<open>x\<close>, \<^verbatim>\<open>nx\<close> and
  \<^verbatim>\<open>time\<close> are set by the cells above the loop and are not mentioned by line 202 or by the
  loop.
\<close>

record 'v notebook =
  D :: 'v
  Lx :: int
  dx :: 'v
  x :: "'v list"
  nx :: nat
  C :: "'v list"
  C_left :: 'v
  C_right :: 'v
  time :: int
  nt :: int
  dt :: 'v
  t :: "int option"

subsection \<open>Line 202: the time step\<close>

text \<open>
  \<^verbatim>\<open>dt = 0.5 * (dx**2/D)\<close>: the square first, then the division, then the product.
\<close>

definition assign_dt :: "'v arith \<Rightarrow> 'v notebook \<Rightarrow> error + 'v notebook" where
  "assign_dt A s =
     bind_err (float_pow2 A (dx s)) (\<lambda>p.
     bind_err (float_truediv A p (D s)) (\<lambda>q.
     Inr (s\<lparr>dt := fmul A (half A) q\<rparr>)))"

subsection \<open>Lines 232 to 234: the body of the loop\<close>

text \<open>
  \<^verbatim>\<open>C+= D * dt / dx**2 * (np.roll(C, -1) -2*C + np.roll(C,1))\<close>

  The scalar \<^verbatim>\<open>D * dt / dx**2\<close> is evaluated first (\<open>diffusion_number\<close>: the product, the
  square, the division), then the array in parentheses (\<open>second_difference\<close>), both from the
  array \<^verbatim>\<open>C\<close> as it is before the statement; the in-place addition happens last.
\<close>

definition diffusion_number :: "'v arith \<Rightarrow> 'v notebook \<Rightarrow> error + 'v" where
  "diffusion_number A s =
     bind_err (float_pow2 A (dx s)) (\<lambda>p. float_truediv A (fmul A (D s) (dt s)) p)"

definition second_difference :: "'v arith \<Rightarrow> 'v list \<Rightarrow> 'v list" where
  "second_difference A a =
     arr_add A (arr_sub A (roll a (- 1)) (scal_mul A (two A) a)) (roll a 1)"

definition stencil_update :: "'v arith \<Rightarrow> 'v notebook \<Rightarrow> error + 'v notebook" where
  "stencil_update A s =
     bind_err (diffusion_number A s) (\<lambda>k.
     Inr (s\<lparr>C := arr_add A (C s) (scal_mul A k (second_difference A (C s)))\<rparr>))"

text \<open>\<^verbatim>\<open>C[0] = C_left\<close>\<close>

definition reset_left :: "'v notebook \<Rightarrow> error + 'v notebook" where
  "reset_left s = bind_err (setitem (C s) 0 (C_left s)) (\<lambda>a. Inr (s\<lparr>C := a\<rparr>))"

text \<open>\<^verbatim>\<open>C[-1] = C_right\<close>\<close>

definition reset_right :: "'v notebook \<Rightarrow> error + 'v notebook" where
  "reset_right s = bind_err (setitem (C s) (- 1) (C_right s)) (\<lambda>a. Inr (s\<lparr>C := a\<rparr>))"

definition loop_body :: "'v arith \<Rightarrow> 'v notebook \<Rightarrow> error + 'v notebook" where
  "loop_body A s = bind_err (bind_err (stencil_update A s) reset_left) reset_right"

subsection \<open>Line 231: the loop\<close>

text \<open>
  \<^verbatim>\<open>for t in range(0, nt)\<close>: the range is built once, with \<^verbatim>\<open>max(0, nt)\<close> elements. Each
  iteration binds \<^verbatim>\<open>t\<close> to the next element and runs the body on the namespace the previous
  iteration left. \<open>for_range A k m\<close> runs the \<open>m\<close> iterations that start at \<open>t = k\<close>.
\<close>

fun for_range :: "'v arith \<Rightarrow> int \<Rightarrow> nat \<Rightarrow> 'v notebook \<Rightarrow> error + 'v notebook" where
  "for_range A k 0 s = Inr s"
| "for_range A k (Suc m) s =
     bind_err (loop_body A (s\<lparr>t := Some k\<rparr>)) (for_range A (k + 1) m)"

definition time_loop :: "'v arith \<Rightarrow> 'v notebook \<Rightarrow> error + 'v notebook" where
  "time_loop A s = for_range A 0 (nat (nt s)) s"

text \<open>The run: line 202, then the loop.\<close>

definition run :: "'v arith \<Rightarrow> 'v notebook \<Rightarrow> error + 'v notebook" where
  "run A s = bind_err (assign_dt A s) (time_loop A)"

subsection \<open>Derived notions used by the statements\<close>


text \<open>
  The array that one run of the body leaves in \<^verbatim>\<open>C\<close> when the scalar of line 232 has the
  value \<open>k\<close> and no statement raises: the result of line 232 with the two assignments of
  lines 233 and 234 applied in that order.
\<close>

definition stepped :: "'v arith \<Rightarrow> 'v \<Rightarrow> 'v notebook \<Rightarrow> 'v list" where
  "stepped A k s =
     (arr_add A (C s) (scal_mul A k (second_difference A (C s))))
       [0 := C_left s, length (C s) - 1 := C_right s]"



text \<open>
  Two namespaces give the loop the same inputs when they agree on the variables the loop
  reads: the field, the three scalars of the stencil, the step count and the two boundary values.
\<close>

definition same_inputs :: "'v notebook \<Rightarrow> 'v notebook \<Rightarrow> bool" where
  "same_inputs s1 s2 \<longleftrightarrow>
     C s1 = C s2 \<and> D s1 = D s2 \<and> dx s1 = dx s2 \<and> dt s1 = dt s2 \<and> nt s1 = nt s2 \<and>
     C_left s1 = C_left s2 \<and> C_right s1 = C_right s2"

text \<open>
  A binary64 namespace with the given \<^verbatim>\<open>D\<close>, \<^verbatim>\<open>dx\<close>, \<^verbatim>\<open>dt\<close>, \<^verbatim>\<open>nt\<close>, \<^verbatim>\<open>C_left\<close>, \<^verbatim>\<open>C_right\<close> and
  \<^verbatim>\<open>C\<close>, for running the model on concrete inputs. The numbers are written as Python writes
  float literals: each stands for the binary64 number nearest to it. The loop variable is
  unbound and the grid variables, which the modelled lines never read, are left empty.
\<close>

definition namespace ::
  "rat \<Rightarrow> rat \<Rightarrow> rat \<Rightarrow> int \<Rightarrow> rat \<Rightarrow> rat \<Rightarrow> rat list \<Rightarrow> float64 notebook" where
  "namespace d h k n l r c =
     \<lparr>D = round64 d, Lx = 300, dx = round64 h, x = [], nx = 0, C = map round64 c,
      C_left = round64 l, C_right = round64 r, time = 0, nt = n, dt = round64 k, t = None\<rparr>"

section \<open>Auxiliary lemmas\<close>

subsection \<open>Sequencing and the array operations\<close>

lemma bind_err_simps:
  "bind_err (Inl e) f = Inl e"
  "bind_err (Inr v) f = f v"
  by (simp_all add: bind_err_def)

lemma length_roll: "length (roll a k) = length a"
  by (simp add: roll_def Let_def)



lemma length_second_difference: "length (second_difference A a) = length a"
  by (simp add: second_difference_def arr_add_def arr_sub_def scal_mul_def length_roll)


subsection \<open>The scalar of line 232\<close>

lemma diffusion_number_cases:
  "diffusion_number A s =
     (case fpow2 A (dx s) of
        None \<Rightarrow> Inl OverflowError
      | Some p \<Rightarrow> if is_zero A p then Inl ZeroDivisionError
                  else Inr (fdiv A (fmul A (D s) (dt s)) p))"
  by (simp add: diffusion_number_def float_pow2_def float_truediv_def bind_err_simps
      split: option.splits)

lemma diffusion_number_C_update [simp]:
  "diffusion_number A (s\<lparr>C := c\<rparr>) = diffusion_number A s"
  by (simp add: diffusion_number_def)

lemma diffusion_number_t_update [simp]:
  "diffusion_number A (s\<lparr>t := v\<rparr>) = diffusion_number A s"
  by (simp add: diffusion_number_def)

subsection \<open>The loop body\<close>

lemma length_stepped: "length (stepped A k s) = length (C s)"
  by (simp add: stepped_def arr_add_def scal_mul_def length_second_difference)

lemma loop_body_Inr:
  assumes "diffusion_number A s = Inr k" "C s \<noteq> []"
  shows "loop_body A s = Inr (s\<lparr>C := stepped A k s\<rparr>)"
  using assms
  by (simp add: loop_body_def stencil_update_def reset_left_def reset_right_def bind_err_simps
      setitem_def stepped_def arr_add_def scal_mul_def length_second_difference Let_def
      nat_diff_distrib')

lemma loop_body_raises: "diffusion_number A s = Inl e \<Longrightarrow> loop_body A s = Inl e"
  by (simp add: loop_body_def stencil_update_def bind_err_simps)

lemma loop_body_empty:
  "diffusion_number A s = Inr k \<Longrightarrow> C s = [] \<Longrightarrow> loop_body A s = Inl IndexError"
  by (simp add: loop_body_def stencil_update_def reset_left_def bind_err_simps setitem_def
      arr_add_def)

lemma loop_body_InrD:
  assumes "loop_body A s = Inr s'"
  shows "\<exists>k. diffusion_number A s = Inr k \<and> C s \<noteq> [] \<and> s' = s\<lparr>C := stepped A k s\<rparr>"
proof (cases "diffusion_number A s")
  case (Inl e)
  with assms loop_body_raises [of A s e] show ?thesis by simp
next
  case (Inr k)
  have ne: "C s \<noteq> []" using assms loop_body_empty [OF Inr] by auto
  with assms Inr loop_body_Inr [OF Inr ne] show ?thesis by simp
qed


lemma stepped_nth_first:
  assumes "2 \<le> length (C s)"
  shows "stepped A k s ! 0 = C_left s"
proof -
  have "0 < length (C s)" "0 \<noteq> length (C s) - 1" using assms by auto
  thus ?thesis
    by (simp add: stepped_def arr_add_def scal_mul_def length_second_difference)
qed

lemma stepped_nth_last: "C s \<noteq> [] \<Longrightarrow> stepped A k s ! (length (C s) - 1) = C_right s"
  by (simp add: stepped_def arr_add_def scal_mul_def length_second_difference)

lemma stepped_t_update: "stepped A k (s\<lparr>t := v\<rparr>) = stepped A k s"
  by (simp add: stepped_def)

lemma loop_body_t_update:
  "loop_body A (s\<lparr>t := v\<rparr>) = map_sum id (\<lambda>s'. s'\<lparr>t := v\<rparr>) (loop_body A s)"
proof (cases "diffusion_number A s")
  case (Inl e)
  thus ?thesis by (simp add: loop_body_raises)
next
  case (Inr k)
  show ?thesis
  proof (cases "C s = []")
    case True
    with Inr show ?thesis by (simp add: loop_body_empty [where k = k])
  next
    case False
    with Inr show ?thesis by (simp add: loop_body_Inr [where k = k] stepped_t_update)
  qed
qed

subsection \<open>The loop: what it keeps, when it returns, the boundary entries\<close>

lemma for_range_step:
  assumes "for_range A k (Suc m) s = Inr s'"
  obtains j where "diffusion_number A s = Inr j" "C s \<noteq> []"
    "for_range A (k + 1) m (s\<lparr>t := Some k, C := stepped A j s\<rparr>) = Inr s'"
proof -
  from assms obtain s1 where b: "loop_body A (s\<lparr>t := Some k\<rparr>) = Inr s1"
    and r: "for_range A (k + 1) m s1 = Inr s'"
    by (auto simp add: bind_err_def split: sum.splits)
  from loop_body_InrD [OF b] obtain j where "diffusion_number A s = Inr j" "C s \<noteq> []"
    "s1 = s\<lparr>t := Some k, C := stepped A j s\<rparr>"
    by (auto simp add: stepped_t_update)
  with r that show ?thesis by simp
qed

lemma for_range_frame:
  "for_range A k m s = Inr s' \<Longrightarrow>
     D s' = D s \<and> Lx s' = Lx s \<and> dx s' = dx s \<and> x s' = x s \<and> nx s' = nx s \<and>
     C_left s' = C_left s \<and> C_right s' = C_right s \<and> time s' = time s \<and> nt s' = nt s \<and>
     dt s' = dt s \<and> length (C s') = length (C s)"
proof (induction m arbitrary: k s)
  case 0
  thus ?case by simp
next
  case (Suc m)
  from Suc.prems obtain j where
    r: "for_range A (k + 1) m (s\<lparr>t := Some k, C := stepped A j s\<rparr>) = Inr s'"
    by (rule for_range_step)
  from Suc.IH [OF r] show ?case by (simp add: length_stepped)
qed

lemma for_range_succeeds:
  "diffusion_number A s = Inr j \<Longrightarrow> C s \<noteq> [] \<Longrightarrow> \<exists>s'. for_range A k m s = Inr s'"
proof (induction m arbitrary: k s)
  case 0
  show ?case by simp
next
  case (Suc m)
  let ?s1 = "s\<lparr>t := Some k, C := stepped A j s\<rparr>"
  have b: "loop_body A (s\<lparr>t := Some k\<rparr>) = Inr ?s1"
    using Suc.prems by (simp add: loop_body_Inr [where k = j] stepped_t_update)
  have "length (C ?s1) = length (C s)" by (simp add: length_stepped)
  hence ne: "C ?s1 \<noteq> []" using Suc.prems by auto
  have d: "diffusion_number A ?s1 = Inr j" using Suc.prems by simp
  from Suc.IH [OF d ne, of "k + 1"] obtain s' where "for_range A (k + 1) m ?s1 = Inr s'"
    by blast
  with b show ?case by (simp add: bind_err_simps)
qed

lemma for_range_boundaries:
  "for_range A k (Suc m) s = Inr s' \<Longrightarrow> 2 \<le> length (C s) \<Longrightarrow>
     C s' ! 0 = C_left s \<and> last (C s') = C_right s"
proof (induction m arbitrary: k s)
  case 0
  from "0.prems"(1) obtain j where
    "for_range A (k + 1) 0 (s\<lparr>t := Some k, C := stepped A j s\<rparr>) = Inr s'"
    by (rule for_range_step)
  hence s': "s' = s\<lparr>t := Some k, C := stepped A j s\<rparr>" by simp
  have ne: "stepped A j s \<noteq> []" using "0.prems" length_stepped [of A j s] by auto
  have "last (stepped A j s) = stepped A j s ! (length (C s) - 1)"
    using ne by (simp add: last_conv_nth length_stepped)
  moreover have "stepped A j s ! (length (C s) - 1) = C_right s"
    using "0.prems" by (intro stepped_nth_last) auto
  moreover have "stepped A j s ! 0 = C_left s"
    using "0.prems" by (intro stepped_nth_first) auto
  ultimately show ?case using s' by simp
next
  case (Suc m)
  from Suc.prems(1) obtain j where
    r: "for_range A (k + 1) (Suc m) (s\<lparr>t := Some k, C := stepped A j s\<rparr>) = Inr s'"
    by (rule for_range_step)
  have "2 \<le> length (C (s\<lparr>t := Some k, C := stepped A j s\<rparr>))"
    using Suc.prems by (simp add: length_stepped)
  from Suc.IH [OF r this] show ?case by simp
qed

subsection \<open>Symmetric fields\<close>







subsection \<open>The interior-only update\<close>




subsection \<open>When the loop raises\<close>

lemma time_loop_raises:
  assumes "1 \<le> nt s" "diffusion_number A s = Inl e"
  shows "time_loop A s = Inl e"
proof -
  from assms obtain m where "nat (nt s) = Suc m" by (cases "nat (nt s)") auto
  thus ?thesis using assms by (simp add: time_loop_def loop_body_raises bind_err_simps)
qed

lemma time_loop_empty:
  assumes "1 \<le> nt s" "diffusion_number A s = Inr k" "C s = []"
  shows "time_loop A s = Inl IndexError"
proof -
  from assms obtain m where "nat (nt s) = Suc m" by (cases "nat (nt s)") auto
  thus ?thesis
    using assms by (simp add: time_loop_def loop_body_empty [where k = k] bind_err_simps)
qed

lemma time_loop_succeeds:
  assumes "nt s \<le> 0 \<or> (diffusion_number A s = Inr k \<and> C s \<noteq> [])"
  shows "\<exists>s'. time_loop A s = Inr s' \<and> length (C s') = length (C s)"
proof -
  have "\<exists>s'. for_range A 0 (nat (nt s)) s = Inr s'"
  proof (cases "nt s \<le> 0")
    case True
    thus ?thesis by simp
  next
    case False
    with assms show ?thesis by (intro for_range_succeeds [where j = k]) auto
  qed
  then obtain s' where r: "for_range A 0 (nat (nt s)) s = Inr s'" by blast
  from for_range_frame [OF r] r show ?thesis by (simp add: time_loop_def)
qed

subsection \<open>Namespaces with the same inputs\<close>

lemma stepped_same_inputs: "same_inputs s1 s2 \<Longrightarrow> stepped A k s1 = stepped A k s2"
  by (simp add: same_inputs_def stepped_def)

lemma diffusion_number_same_inputs:
  "same_inputs s1 s2 \<Longrightarrow> diffusion_number A s1 = diffusion_number A s2"
  by (simp add: same_inputs_def diffusion_number_def)

lemma loop_body_same_inputs:
  assumes "same_inputs s1 s2"
  shows "map_sum id C (loop_body A s1) = map_sum id C (loop_body A s2)"
proof (cases "diffusion_number A s1")
  case (Inl e)
  hence "diffusion_number A s2 = Inl e"
    using diffusion_number_same_inputs [OF assms, of A] by simp
  with Inl show ?thesis by (simp add: loop_body_raises)
next
  case (Inr k)
  hence d2: "diffusion_number A s2 = Inr k"
    using diffusion_number_same_inputs [OF assms, of A] by simp
  show ?thesis
  proof (cases "C s1 = []")
    case True
    hence "C s2 = []" using assms by (simp add: same_inputs_def)
    with True Inr d2 show ?thesis by (simp add: loop_body_empty [where k = k])
  next
    case ne: False
    hence "C s2 \<noteq> []" using assms by (simp add: same_inputs_def)
    with ne Inr d2 show ?thesis
      by (simp add: loop_body_Inr [where k = k] stepped_same_inputs [OF assms])
  qed
qed

lemma for_range_same_inputs:
  "same_inputs s1 s2 \<Longrightarrow>
     map_sum id C (for_range A k m s1) = map_sum id C (for_range A k m s2)"
proof (induction m arbitrary: k s1 s2)
  case 0
  thus ?case by (simp add: same_inputs_def)
next
  case (Suc m)
  let ?u1 = "s1\<lparr>t := Some k\<rparr>" and ?u2 = "s2\<lparr>t := Some k\<rparr>"
  have u: "same_inputs ?u1 ?u2" using Suc.prems by (simp add: same_inputs_def)
  show ?case
  proof (cases "loop_body A ?u1")
    case (Inl e)
    with loop_body_same_inputs [OF u, of A] have "loop_body A ?u2 = Inl e"
      by (cases "loop_body A ?u2") simp_all
    with Inl show ?thesis by (simp add: bind_err_simps)
  next
    case (Inr v1)
    from loop_body_InrD [OF Inr] obtain j where
      j: "diffusion_number A ?u1 = Inr j" "C ?u1 \<noteq> []" and v1: "v1 = ?u1\<lparr>C := stepped A j ?u1\<rparr>"
      by blast
    have j2: "diffusion_number A ?u2 = Inr j" "C ?u2 \<noteq> []"
      using j u diffusion_number_same_inputs [OF u, of A] by (simp_all add: same_inputs_def)
    have st: "stepped A j ?u1 = stepped A j ?u2" by (rule stepped_same_inputs [OF u])
    have b2: "loop_body A ?u2 = Inr (?u2\<lparr>C := stepped A j ?u2\<rparr>)"
      by (rule loop_body_Inr [OF j2])
    have "same_inputs v1 (?u2\<lparr>C := stepped A j ?u2\<rparr>)"
      using u st v1 by (simp add: same_inputs_def)
    from Suc.IH [OF this, of "k + 1"] show ?thesis
      using Inr b2 by (simp add: bind_err_simps)
  qed
qed

lemma for_range_only_C_and_t:
  assumes "for_range A k m s = Inr s'"
  shows "s' = s\<lparr>C := C s', t := t s'\<rparr>"
  using for_range_frame [OF assms] by (intro notebook.equality) simp_all

subsection \<open>The loop as an iterate of the step\<close>

lemma stepped_C_update_frame:
  "stepped A j (s\<lparr>t := v, C := a\<rparr>) = stepped A j (s\<lparr>C := a\<rparr>)"
  by (simp add: stepped_def)

lemma for_range_field:
  "diffusion_number A s = Inr j \<Longrightarrow> C s \<noteq> [] \<Longrightarrow>
     \<exists>s'. for_range A k (Suc m) s = Inr s' \<and>
          C s' = ((\<lambda>a. stepped A j (s\<lparr>C := a\<rparr>)) ^^ Suc m) (C s) \<and>
          t s' = Some (k + int m)"
proof (induction m arbitrary: k s)
  case 0
  have "loop_body A (s\<lparr>t := Some k\<rparr>) = Inr (s\<lparr>t := Some k, C := stepped A j s\<rparr>)"
    using "0.prems" by (simp add: loop_body_Inr [where k = j] stepped_t_update)
  thus ?case by (simp add: bind_err_simps)
next
  case (Suc m)
  let ?s1 = "s\<lparr>t := Some k, C := stepped A j s\<rparr>"
  have b: "loop_body A (s\<lparr>t := Some k\<rparr>) = Inr ?s1"
    using Suc.prems by (simp add: loop_body_Inr [where k = j] stepped_t_update)
  have "length (C ?s1) = length (C s)" by (simp add: length_stepped)
  hence ne: "C ?s1 \<noteq> []" using Suc.prems by auto
  have d: "diffusion_number A ?s1 = Inr j" using Suc.prems by simp
  from Suc.IH [OF d ne, of "k + 1"] obtain s' where
    r: "for_range A (k + 1) (Suc m) ?s1 = Inr s'" and
    c: "C s' = ((\<lambda>a. stepped A j (?s1\<lparr>C := a\<rparr>)) ^^ Suc m) (C ?s1)" and
    tt: "t s' = Some (k + 1 + int m)" by blast
  have "C s' = ((\<lambda>a. stepped A j (s\<lparr>C := a\<rparr>)) ^^ Suc m) (stepped A j s)"
    using c by (simp add: stepped_C_update_frame)
  also have "stepped A j s = stepped A j (s\<lparr>C := C s\<rparr>)" by simp
  finally have "C s' = ((\<lambda>a. stepped A j (s\<lparr>C := a\<rparr>)) ^^ Suc (Suc m)) (C s)"
    by (simp only: funpow_Suc_right o_apply)
  moreover have "for_range A k (Suc (Suc m)) s = Inr s'"
    using b r by (simp add: bind_err_simps)
  moreover have "t s' = Some (k + int (Suc m))" using tt by simp
  ultimately show ?case by blast
qed

subsection \<open>Line 202 and the run\<close>

lemma assign_dt_cases:
  "assign_dt A s =
     (case fpow2 A (dx s) of
        None \<Rightarrow> Inl OverflowError
      | Some p \<Rightarrow> if is_zero A (D s) then Inl ZeroDivisionError
                  else Inr (s\<lparr>dt := fmul A (half A) (fdiv A p (D s))\<rparr>))"
  by (simp add: assign_dt_def float_pow2_def float_truediv_def bind_err_simps
      split: option.splits)

lemma diffusion_number_dt_update:
  "diffusion_number A (s\<lparr>dt := v\<rparr>) =
     (case fpow2 A (dx s) of
        None \<Rightarrow> Inl OverflowError
      | Some p \<Rightarrow> if is_zero A p then Inl ZeroDivisionError
                  else Inr (fdiv A (fmul A (D s) v) p))"
  by (simp add: diffusion_number_cases split: option.splits)

subsection \<open>Squares out of the binary64 range\<close>

text \<open>
  The square of \<open>2^600\<close> overflows, and the square of \<open>2^-600\<close> is below every positive
  binary64 number and rounds to zero.
\<close>

lemma huge_dx_overflows:
  "fpow2 binary64 (dx (namespace d (2 ^ 600) k n l r c)) = None"
  by code_simp

lemma tiny_dx_underflows:
  "fpow2 binary64 (dx (namespace d (1 / 2 ^ 600) k n l r c)) = Some (Finite 0)"
  by code_simp

section \<open>The claims\<close>

subsection \<open>C1: the stencil at the interior indices\<close>




subsection \<open>C2: invalid parameters\<close>

text \<open>
  C2, as claimed: every run with \<open>dx \<le> 0\<close>, or \<open>D \<le> 0\<close>, or an initial field of length below
  \<open>2\<close> fails before any stepping begins and returns no field. The notebook validates nothing.
  With \<open>D = -5\<close> line 202 gives a negative \<^verbatim>\<open>dt\<close>, the scalar \<^verbatim>\<open>D * dt / dx**2\<close> is \<open>0.5\<close> again
  and the run returns a field; a one-node field is stepped to the single entry \<^verbatim>\<open>C_right\<close>; and
  with \<open>dx = 0\<close> and \<open>nt = 0\<close> the run returns the initial field with \<open>dt = 0\<close>.
\<close>

theorem run_without_validation_counterexample:
  "D (namespace (- 5) 1 0 1 10 8 [10, 20, 5, 0, 8]) = Finite (- 5) \<and> (- 5 :: rat) \<le> 0 \<and>
   map_sum id C (run binary64 (namespace (- 5) 1 0 1 10 8 [10, 20, 5, 0, 8]))
     = Inr (map Finite [10, 7.5, 10, 6.5, 8]) \<and>
   length (C (namespace 1 1 0 1 10 8 [3])) < 2 \<and>
   map_sum id C (run binary64 (namespace 1 1 0 1 10 8 [3])) = Inr [Finite 8] \<and>
   dx (namespace 1 0 7 0 10 8 [1, 2, 3]) = Finite 0 \<and>
   run binary64 (namespace 1 0 7 0 10 8 [1, 2, 3]) = Inr (namespace 1 0 0 0 10 8 [1, 2, 3])"
  by code_simp

text \<open>
  C2, amended: the program has no validation and no \<^verbatim>\<open>InvalidParameter\<close> condition. The run
  fails in these cases only, each time without returning a field: with \<^verbatim>\<open>OverflowError\<close> when
  \<^verbatim>\<open>dx**2\<close> overflows and otherwise with \<^verbatim>\<open>ZeroDivisionError\<close> when \<open>D\<close> is zero (both at line
  202, before the loop); and, when \<open>nt \<ge> 1\<close>, with \<^verbatim>\<open>ZeroDivisionError\<close> when \<^verbatim>\<open>dx**2\<close> is zero
  (\<open>dx\<close> is zero or so small that its square rounds to zero) and otherwise with \<^verbatim>\<open>IndexError\<close>
  when the field is empty. For every other input, among them \<open>D < 0\<close>, \<open>dx < 0\<close>, a field of
  length \<open>1\<close>, and a zero \<^verbatim>\<open>dx**2\<close> or an empty field with \<open>nt \<le> 0\<close>, the run proceeds and
  returns a field of the length of the initial one.
\<close>

theorem run_failures:
  "(fpow2 A (dx s) = None \<longrightarrow> run A s = Inl OverflowError) \<and>
   (fpow2 A (dx s) = Some p \<and> is_zero A (D s) \<longrightarrow> run A s = Inl ZeroDivisionError) \<and>
   (fpow2 A (dx s) = Some p \<and> \<not> is_zero A (D s) \<and> 1 \<le> nt s \<and> is_zero A p \<longrightarrow>
      run A s = Inl ZeroDivisionError) \<and>
   (fpow2 A (dx s) = Some p \<and> \<not> is_zero A (D s) \<and> 1 \<le> nt s \<and> \<not> is_zero A p \<and> C s = [] \<longrightarrow>
      run A s = Inl IndexError) \<and>
   (fpow2 A (dx s) = Some p \<and> \<not> is_zero A (D s) \<and> (nt s \<le> 0 \<or> (\<not> is_zero A p \<and> C s \<noteq> [])) \<longrightarrow>
      (\<exists>s'. run A s = Inr s' \<and> length (C s') = length (C s)))"
proof (intro conjI impI)
  assume "fpow2 A (dx s) = None"
  thus "run A s = Inl OverflowError" by (simp add: run_def assign_dt_cases bind_err_simps)
next
  assume "fpow2 A (dx s) = Some p \<and> is_zero A (D s)"
  thus "run A s = Inl ZeroDivisionError" by (simp add: run_def assign_dt_cases bind_err_simps)
next
  let ?s1 = "s\<lparr>dt := fmul A (half A) (fdiv A p (D s))\<rparr>"
  assume h: "fpow2 A (dx s) = Some p \<and> \<not> is_zero A (D s) \<and> 1 \<le> nt s \<and> is_zero A p"
  hence "run A s = time_loop A ?s1" by (simp add: run_def assign_dt_cases bind_err_simps)
  moreover have "diffusion_number A ?s1 = Inl ZeroDivisionError"
    using h by (simp add: diffusion_number_dt_update)
  hence "time_loop A ?s1 = Inl ZeroDivisionError" using h by (intro time_loop_raises) auto
  ultimately show "run A s = Inl ZeroDivisionError" by simp
next
  let ?s1 = "s\<lparr>dt := fmul A (half A) (fdiv A p (D s))\<rparr>"
  assume h: "fpow2 A (dx s) = Some p \<and> \<not> is_zero A (D s) \<and> 1 \<le> nt s \<and> \<not> is_zero A p \<and> C s = []"
  hence "run A s = time_loop A ?s1" by (simp add: run_def assign_dt_cases bind_err_simps)
  moreover have "\<exists>k. diffusion_number A ?s1 = Inr k"
    using h by (simp add: diffusion_number_dt_update)
  then obtain k where "diffusion_number A ?s1 = Inr k" by blast
  hence "time_loop A ?s1 = Inl IndexError" using h by (intro time_loop_empty [where k = k]) auto
  ultimately show "run A s = Inl IndexError" by simp
next
  let ?s1 = "s\<lparr>dt := fmul A (half A) (fdiv A p (D s))\<rparr>"
  assume h: "fpow2 A (dx s) = Some p \<and> \<not> is_zero A (D s) \<and>
    (nt s \<le> 0 \<or> (\<not> is_zero A p \<and> C s \<noteq> []))"
  hence r: "run A s = time_loop A ?s1" by (simp add: run_def assign_dt_cases bind_err_simps)
  let ?k = "fdiv A (fmul A (D s) (fmul A (half A) (fdiv A p (D s)))) p"
  have "nt ?s1 \<le> 0 \<or> (diffusion_number A ?s1 = Inr ?k \<and> C ?s1 \<noteq> [])"
    using h by (auto simp add: diffusion_number_dt_update)
  from time_loop_succeeds [OF this] r
  show "\<exists>s'. run A s = Inr s' \<and> length (C s') = length (C s)" by simp
qed

text \<open>
  One binary64 input for each of the five cases: \<open>dx = 2^600\<close>; \<open>D = 0\<close>; \<open>dx = 2^-600\<close>, not
  zero, whose square is zero; an empty field; and a run with negative \<open>D\<close> and \<open>dx\<close> on a
  one-node field.
\<close>

theorem run_failures_witness:
  "fpow2 binary64 (dx (namespace 1 (2 ^ 600) 0 1 10 8 [1, 2, 3])) = None \<and>
   run binary64 (namespace 1 (2 ^ 600) 0 1 10 8 [1, 2, 3]) = Inl OverflowError \<and>
   is_zero binary64 (D (namespace 0 1 0 1 10 8 [1, 2, 3])) \<and>
   run binary64 (namespace 0 1 0 1 10 8 [1, 2, 3]) = Inl ZeroDivisionError \<and>
   fpow2 binary64 (dx (namespace 1 (1 / 2 ^ 600) 0 1 10 8 [1, 2, 3])) = Some (Finite 0) \<and>
   is_zero binary64 (Finite 0) \<and>
   run binary64 (namespace 1 (1 / 2 ^ 600) 0 1 10 8 [1, 2, 3]) = Inl ZeroDivisionError \<and>
   C (namespace 1 1 0 1 10 8 []) = [] \<and>
   run binary64 (namespace 1 1 0 1 10 8 []) = Inl IndexError \<and>
   C (namespace (- 5) (- 1) 0 3 10 8 [7]) \<noteq> [] \<and>
   (\<exists>s'. run binary64 (namespace (- 5) (- 1) 0 3 10 8 [7]) = Inr s' \<and> length (C s') = 1)"
proof -
  let ?a = "namespace 1 (2 ^ 600) 0 1 10 8 [1, 2, 3]"
  let ?b = "namespace 0 1 0 1 10 8 [1, 2, 3]"
  let ?c = "namespace 1 (1 / 2 ^ 600) 0 1 10 8 [1, 2, 3]"
  let ?d = "namespace 1 1 0 1 10 8 []"
  let ?e = "namespace (- 5) (- 1) 0 3 10 8 [7]"
  have a: "fpow2 binary64 (dx ?a) = None" by (rule huge_dx_overflows)
  from run_failures [of binary64 ?a] a
  have a': "run binary64 ?a = Inl OverflowError" by blast
  have b: "fpow2 binary64 (dx ?b) = Some (Finite 1)" "is_zero binary64 (D ?b)" by code_simp+
  from run_failures [of binary64 ?b "Finite 1"] b
  have b': "run binary64 ?b = Inl ZeroDivisionError" by blast
  have c: "fpow2 binary64 (dx ?c) = Some (Finite 0)" by (rule tiny_dx_underflows)
  have c2: "\<not> is_zero binary64 (D ?c)" "1 \<le> nt ?c" "is_zero binary64 (Finite 0)" by code_simp+
  from run_failures [of binary64 ?c "Finite 0"] c c2
  have c': "run binary64 ?c = Inl ZeroDivisionError" by blast
  have d: "fpow2 binary64 (dx ?d) = Some (Finite 1)" "\<not> is_zero binary64 (D ?d)" "1 \<le> nt ?d"
    "\<not> is_zero binary64 (Finite 1)" "C ?d = []" by code_simp+
  from run_failures [of binary64 ?d "Finite 1"] d
  have d': "run binary64 ?d = Inl IndexError" by blast
  have e: "fpow2 binary64 (dx ?e) = Some (Finite 1)" "\<not> is_zero binary64 (D ?e)"
    "\<not> is_zero binary64 (Finite 1)" "C ?e \<noteq> []" "length (C ?e) = 1" by code_simp+
  from run_failures [of binary64 ?e "Finite 1"] e
  have e': "\<exists>s'. run binary64 ?e = Inr s' \<and> length (C s') = 1" by simp
  from a a' b(2) b' c c2(3) c' d(5) d' e(4) e' show ?thesis by (intro conjI)
qed

subsection \<open>C3: the boundary values after the loop\<close>

text \<open>
  C3, as claimed: for every valid input and every \<open>nt \<ge> 0\<close>, also \<open>nt = 0\<close>, the field after the
  loop has its first entry equal to the left value and its last entry equal to the right
  value. The two assignments stand inside the loop body, so with \<open>nt = 0\<close> they never run:
  on the field \<open>[1, 2, 3]\<close> with boundary values \<open>10\<close> and \<open>8\<close> the loop returns the namespace
  untouched, and neither end of the field carries its boundary value.
\<close>

theorem boundary_invariant_zero_steps_counterexample:
  "2 \<le> length (C (namespace 1 1 0.5 0 10 8 [1, 2, 3])) \<and>
   D (namespace 1 1 0.5 0 10 8 [1, 2, 3]) = Finite 1 \<and>
   dx (namespace 1 1 0.5 0 10 8 [1, 2, 3]) = Finite 1 \<and>
   0 \<le> nt (namespace 1 1 0.5 0 10 8 [1, 2, 3]) \<and>
   time_loop binary64 (namespace 1 1 0.5 0 10 8 [1, 2, 3]) = Inr (namespace 1 1 0.5 0 10 8 [1, 2, 3]) \<and>
   C (namespace 1 1 0.5 0 10 8 [1, 2, 3]) ! 0 \<noteq> C_left (namespace 1 1 0.5 0 10 8 [1, 2, 3]) \<and>
   last (C (namespace 1 1 0.5 0 10 8 [1, 2, 3])) \<noteq> C_right (namespace 1 1 0.5 0 10 8 [1, 2, 3])"
  by code_simp

text \<open>
  C3, amended: for every field of length at least \<open>2\<close> and every \<open>nt \<ge> 1\<close>, the field the loop
  returns has first entry \<^verbatim>\<open>C_left\<close> and last entry \<^verbatim>\<open>C_right\<close> (the stored floats are the
  boundary values themselves; \<^verbatim>\<open>==\<close> agrees with that for every value but a NaN, which is not
  equal to itself); for \<open>nt \<le> 0\<close> the loop returns the namespace it was given, so the ends of
  the field carry the boundary values only where the initial field already did.
\<close>

theorem boundary_invariant:
  "2 \<le> length (C s) \<and> time_loop A s = Inr s' \<longrightarrow>
     (1 \<le> nt s \<longrightarrow> C s' ! 0 = C_left s \<and> last (C s') = C_right s) \<and>
     (nt s \<le> 0 \<longrightarrow> s' = s)"
proof (intro impI conjI)
  assume h: "2 \<le> length (C s) \<and> time_loop A s = Inr s'" and n: "1 \<le> nt s"
  from n obtain m where "nat (nt s) = Suc m" by (cases "nat (nt s)") auto
  with h have "for_range A 0 (Suc m) s = Inr s'" by (simp add: time_loop_def)
  from for_range_boundaries [OF this] h show "C s' ! 0 = C_left s" "last (C s') = C_right s"
    by simp_all
next
  assume "2 \<le> length (C s) \<and> time_loop A s = Inr s'" and "nt s \<le> 0"
  thus "s' = s" by (simp add: time_loop_def)
qed

text \<open>Two steps, and no step, on \<open>[1, 2, 3]\<close> with boundary values \<open>10\<close> and \<open>8\<close>.\<close>

theorem boundary_invariant_witness:
  "2 \<le> length (C (namespace 1 1 0.5 2 10 8 [1, 2, 3])) \<and>
   1 \<le> nt (namespace 1 1 0.5 2 10 8 [1, 2, 3]) \<and>
   time_loop binary64 (namespace 1 1 0.5 2 10 8 [1, 2, 3])
     = Inr ((namespace 1 1 0.5 2 10 8 [10, 9, 8])\<lparr>t := Some 1\<rparr>) \<and>
   C ((namespace 1 1 0.5 2 10 8 [10, 9, 8])\<lparr>t := Some 1\<rparr>) ! 0
     = C_left (namespace 1 1 0.5 2 10 8 [1, 2, 3]) \<and>
   last (C ((namespace 1 1 0.5 2 10 8 [10, 9, 8])\<lparr>t := Some 1\<rparr>))
     = C_right (namespace 1 1 0.5 2 10 8 [1, 2, 3]) \<and>
   nt (namespace 1 1 0.5 0 10 8 [1, 2, 3]) \<le> 0 \<and>
   time_loop binary64 (namespace 1 1 0.5 0 10 8 [1, 2, 3]) = Inr (namespace 1 1 0.5 0 10 8 [1, 2, 3])"
proof -
  let ?s = "namespace 1 1 0.5 2 10 8 [1, 2, 3]"
  let ?s' = "(namespace 1 1 0.5 2 10 8 [10, 9, 8])\<lparr>t := Some 1\<rparr>"
  let ?z = "namespace 1 1 0.5 0 10 8 [1, 2, 3]"
  have p: "2 \<le> length (C ?s)" "1 \<le> nt ?s" by code_simp+
  have r: "time_loop binary64 ?s = Inr ?s'" by code_simp
  from boundary_invariant [of ?s binary64 ?s'] p r
  have c: "C ?s' ! 0 = C_left ?s" "last (C ?s') = C_right ?s" by blast+
  have z: "nt ?z \<le> 0" "time_loop binary64 ?z = Inr ?z" by code_simp+
  from p r c z show ?thesis by (intro conjI)
qed

subsection \<open>C4: zero steps\<close>

text \<open>
  C4, as claimed: with \<open>nt = 0\<close> the loop returns the initial field with its two end entries
  overwritten by the boundary values. On \<open>[3, 1, 4]\<close> with boundary values \<open>500\<close> and \<open>0\<close> the
  loop returns \<open>[3, 1, 4]\<close>, not \<open>[500, 1, 0]\<close>.
\<close>

theorem zero_steps_overwrite_counterexample:
  "nt (namespace 100 0.5 0.00125 0 500 0 [3, 1, 4]) = 0 \<and>
   2 \<le> length (C (namespace 100 0.5 0.00125 0 500 0 [3, 1, 4])) \<and>
   time_loop binary64 (namespace 100 0.5 0.00125 0 500 0 [3, 1, 4])
     = Inr (namespace 100 0.5 0.00125 0 500 0 [3, 1, 4]) \<and>
   time_loop binary64 (namespace 100 0.5 0.00125 0 500 0 [3, 1, 4])
     \<noteq> Inr (namespace 100 0.5 0.00125 0 500 0 [500, 1, 0])"
  by code_simp

text \<open>
  C4, amended: with \<open>nt = 0\<close> the loop returns the namespace it was given: the field, ends and
  interior alike, and every other variable are unchanged, for a field of any length.
\<close>

theorem zero_steps_identity:
  "nt s = 0 \<longrightarrow> time_loop A s = Inr s"
  by (simp add: time_loop_def)

theorem zero_steps_identity_witness:
  "nt (namespace 100 0.5 0.00125 0 500 0 [3, 1, 4]) = 0 \<and>
   time_loop binary64 (namespace 100 0.5 0.00125 0 500 0 [3, 1, 4])
     = Inr (namespace 100 0.5 0.00125 0 500 0 [3, 1, 4])"
proof -
  have "nt (namespace 100 0.5 0.00125 0 500 0 [3, 1, 4]) = 0" by code_simp
  with zero_steps_identity [of "namespace 100 0.5 0.00125 0 500 0 [3, 1, 4]" binary64]
  show ?thesis by blast
qed

subsection \<open>C5: the time step\<close>

text \<open>
  C5, as claimed: for every \<open>dx > 0\<close> and \<open>D > 0\<close> the selector returns exactly
  \<open>dt = 0.5 * dx\<^sup>2 / D\<close>. With \<open>dx = 2^600\<close> and \<open>D = 1\<close> line 202 raises \<^verbatim>\<open>OverflowError\<close> and
  binds no \<^verbatim>\<open>dt\<close>. With \<open>dx = 1\<close> and \<open>D = 3\<close> it binds the binary64 number
  \<open>6004799503160661 / 2^55\<close>, which is not \<open>1/6\<close>.
\<close>

theorem assign_dt_positive_inputs_counterexample:
  "(0 :: rat) < 2 ^ 600 \<and> (0 :: rat) < 1 \<and>
   assign_dt binary64 (namespace 1 (2 ^ 600) 0 1 10 8 [1, 2, 3]) = Inl OverflowError \<and>
   (0 :: rat) < 3 \<and>
   map_sum id dt (assign_dt binary64 (namespace 3 1 0 1 10 8 [1, 2, 3]))
     = Inr (Finite (6004799503160661 / 36028797018963968)) \<and>
   (6004799503160661 / 36028797018963968 :: rat) \<noteq> 0.5 * 1\<^sup>2 / 3"
proof -
  have a: "assign_dt binary64 (namespace 1 (2 ^ 600) 0 1 10 8 [1, 2, 3]) = Inl OverflowError"
    unfolding assign_dt_cases huge_dx_overflows by simp
  have b: "map_sum id dt (assign_dt binary64 (namespace 3 1 0 1 10 8 [1, 2, 3]))
     = Inr (Finite (6004799503160661 / 36028797018963968))" by code_simp
  have c: "(6004799503160661 / 36028797018963968 :: rat) \<noteq> 0.5 * 1\<^sup>2 / 3" by simp
  from a b c show ?thesis by simp
qed

text \<open>
  C5, amended: line 202 binds \<^verbatim>\<open>dt\<close> to the float \<^verbatim>\<open>0.5 * (dx**2 / D)\<close>, the square, the
  quotient and the product each rounded, and leaves every other variable as it was, whenever
  \<^verbatim>\<open>dx**2\<close> does not overflow and \<open>D\<close> is not zero (as for every \<open>D > 0\<close>); it raises
  \<^verbatim>\<open>OverflowError\<close> when \<^verbatim>\<open>dx**2\<close> overflows, and otherwise \<^verbatim>\<open>ZeroDivisionError\<close> when \<open>D\<close> is
  zero.
\<close>

theorem assign_dt_stable_step:
  "(fpow2 A (dx s) = Some p \<and> \<not> is_zero A (D s) \<longrightarrow>
      assign_dt A s = Inr (s\<lparr>dt := fmul A (half A) (fdiv A p (D s))\<rparr>)) \<and>
   (fpow2 A (dx s) = None \<longrightarrow> assign_dt A s = Inl OverflowError) \<and>
   (fpow2 A (dx s) = Some p \<and> is_zero A (D s) \<longrightarrow> assign_dt A s = Inl ZeroDivisionError)"
  by (simp add: assign_dt_cases)

text \<open>
  The notebook's own settings, \<open>D = 100\<close> and \<open>dx = 0.5\<close>, give the binary64 number nearest to
  \<open>0.00125\<close>; \<open>dx = 2^600\<close> overflows; \<open>D = 0\<close> divides by zero.
\<close>

theorem assign_dt_stable_step_witness:
  "fpow2 binary64 (dx (namespace 100 0.5 0 5000 500 0 [500, 500, 0, 0])) = Some (Finite 0.25) \<and>
   \<not> is_zero binary64 (D (namespace 100 0.5 0 5000 500 0 [500, 500, 0, 0])) \<and>
   assign_dt binary64 (namespace 100 0.5 0 5000 500 0 [500, 500, 0, 0])
     = Inr (namespace 100 0.5 0.00125 5000 500 0 [500, 500, 0, 0]) \<and>
   fpow2 binary64 (dx (namespace 100 (2 ^ 600) 0 5000 500 0 [500, 500, 0, 0])) = None \<and>
   assign_dt binary64 (namespace 100 (2 ^ 600) 0 5000 500 0 [500, 500, 0, 0]) = Inl OverflowError \<and>
   is_zero binary64 (D (namespace 0 0.5 0 5000 500 0 [500, 500, 0, 0])) \<and>
   assign_dt binary64 (namespace 0 0.5 0 5000 500 0 [500, 500, 0, 0]) = Inl ZeroDivisionError"
proof -
  let ?s = "namespace 100 0.5 0 5000 500 0 [500, 500, 0, 0]"
  let ?h = "namespace 100 (2 ^ 600) 0 5000 500 0 [500, 500, 0, 0]"
  let ?z = "namespace 0 0.5 0 5000 500 0 [500, 500, 0, 0]"
  have p: "fpow2 binary64 (dx ?s) = Some (Finite 0.25)" "\<not> is_zero binary64 (D ?s)"
    by code_simp+
  have v: "?s\<lparr>dt := fmul binary64 (half binary64) (fdiv binary64 (Finite 0.25) (D ?s))\<rparr>
             = namespace 100 0.5 0.00125 5000 500 0 [500, 500, 0, 0]" by code_simp
  from assign_dt_stable_step [of binary64 ?s "Finite 0.25"] p
  have a: "assign_dt binary64 ?s = Inr (namespace 100 0.5 0.00125 5000 500 0 [500, 500, 0, 0])"
    unfolding v by blast
  have h: "fpow2 binary64 (dx ?h) = None" by (rule huge_dx_overflows)
  from assign_dt_stable_step [of binary64 ?h] h
  have h': "assign_dt binary64 ?h = Inl OverflowError" by blast
  have z: "fpow2 binary64 (dx ?z) = Some (Finite 0.25)" "is_zero binary64 (D ?z)" by code_simp+
  from assign_dt_stable_step [of binary64 ?z "Finite 0.25"] z
  have z': "assign_dt binary64 ?z = Inl ZeroDivisionError" by blast
  from p a h h' z(2) z' show ?thesis by (intro conjI)
qed

subsection \<open>C6: the wraparound update against the interior-only update\<close>



subsection \<open>C7: symmetric fields\<close>




subsection \<open>C8: the loop runs the step \<open>nt\<close> times\<close>

text \<open>
  C8, as claimed: for every \<open>nt \<ge> 0\<close> the loop applies the step exactly \<open>nt\<close> times and always
  terminates after exactly \<open>nt\<close> iterations, \<open>nt\<close> being the sole termination condition. An
  exception ends the loop as well: with \<open>nt = 5\<close> and the positive \<open>dx = 2^-600\<close>, whose square
  rounds to zero, the first iteration raises \<^verbatim>\<open>ZeroDivisionError\<close> and the loop stops there,
  without having applied the step once.
\<close>

theorem time_loop_exception_counterexample:
  "(0 :: rat) < 1 / 2 ^ 600 \<and>
   nt (namespace 1 (1 / 2 ^ 600) 0.5 5 10 8 [10, 20, 5, 0, 8]) = 5 \<and>
   loop_body binary64 ((namespace 1 (1 / 2 ^ 600) 0.5 5 10 8 [10, 20, 5, 0, 8])\<lparr>t := Some 0\<rparr>)
     = Inl ZeroDivisionError \<and>
   time_loop binary64 (namespace 1 (1 / 2 ^ 600) 0.5 5 10 8 [10, 20, 5, 0, 8])
     = Inl ZeroDivisionError"
proof -
  let ?s = "namespace 1 (1 / 2 ^ 600) 0.5 5 10 8 [10, 20, 5, 0, 8]"
  have z: "is_zero binary64 (Finite 0)" by code_simp
  have d: "diffusion_number binary64 ?s = Inl ZeroDivisionError"
    unfolding diffusion_number_cases tiny_dx_underflows using z by simp
  hence "diffusion_number binary64 (?s\<lparr>t := Some 0\<rparr>) = Inl ZeroDivisionError"
    by (simp only: diffusion_number_t_update)
  hence b: "loop_body binary64 (?s\<lparr>t := Some 0\<rparr>) = Inl ZeroDivisionError"
    by (rule loop_body_raises)
  have n: "nt ?s = 5" unfolding namespace_def by simp
  hence "1 \<le> nt ?s" by simp
  from time_loop_raises [OF this d] have l: "time_loop binary64 ?s = Inl ZeroDivisionError" .
  have p: "(0 :: rat) < 1 / 2 ^ 600" by simp
  from p n b l show ?thesis by (intro conjI)
qed

text \<open>
  C8, amended: the loop has an outcome for every namespace, and it is one of these. With
  \<open>nt \<le> 0\<close> the loop returns the namespace as it is. With \<open>nt \<ge> 1\<close>, if the first iteration
  raises (the scalar \<^verbatim>\<open>D * dt / dx**2\<close> cannot be evaluated, or the field is empty), the loop
  ends there with that exception; and if the first iteration returns, then every iteration
  does: the loop returns after exactly \<open>nt\<close> iterations, with the loop variable at \<open>nt - 1\<close>
  and the field equal to the \<open>nt\<close>-fold application of the one-step field update to the
  initial field, each application on the result of the one before.
\<close>

theorem time_loop_iterates:
  "(nt s \<le> 0 \<longrightarrow> time_loop A s = Inr s) \<and>
   (1 \<le> nt s \<and> loop_body A (s\<lparr>t := Some 0\<rparr>) = Inl e \<longrightarrow> time_loop A s = Inl e) \<and>
   (1 \<le> nt s \<and> loop_body A (s\<lparr>t := Some 0\<rparr>) = Inr s1 \<longrightarrow>
      (\<exists>k s'. diffusion_number A s = Inr k \<and> time_loop A s = Inr s' \<and>
              C s' = ((\<lambda>a. stepped A k (s\<lparr>C := a\<rparr>)) ^^ nat (nt s)) (C s) \<and>
              t s' = Some (nt s - 1)))"
proof (intro conjI impI)
  assume "nt s \<le> 0"
  thus "time_loop A s = Inr s" by (simp add: time_loop_def)
next
  assume h: "1 \<le> nt s \<and> loop_body A (s\<lparr>t := Some 0\<rparr>) = Inl e"
  then obtain m where "nat (nt s) = Suc m" by (cases "nat (nt s)") auto
  with h show "time_loop A s = Inl e" by (simp add: time_loop_def bind_err_simps)
next
  assume h: "1 \<le> nt s \<and> loop_body A (s\<lparr>t := Some 0\<rparr>) = Inr s1"
  then obtain m where m: "nat (nt s) = Suc m" by (cases "nat (nt s)") auto
  hence im: "int m = nt s - 1" using h by linarith
  from h loop_body_InrD [of A "s\<lparr>t := Some 0\<rparr>" s1] obtain k where
    k: "diffusion_number A s = Inr k" and ne: "C s \<noteq> []" by auto
  from for_range_field [OF k ne, of 0 m] obtain s' where
    "for_range A 0 (Suc m) s = Inr s'"
    "C s' = ((\<lambda>a. stepped A k (s\<lparr>C := a\<rparr>)) ^^ Suc m) (C s)"
    "t s' = Some (0 + int m)" by blast
  hence "time_loop A s = Inr s' \<and>
         C s' = ((\<lambda>a. stepped A k (s\<lparr>C := a\<rparr>)) ^^ nat (nt s)) (C s) \<and>
         t s' = Some (nt s - 1)"
    using m im by (simp add: time_loop_def)
  with k show "\<exists>k s'. diffusion_number A s = Inr k \<and> time_loop A s = Inr s' \<and>
              C s' = ((\<lambda>a. stepped A k (s\<lparr>C := a\<rparr>)) ^^ nat (nt s)) (C s) \<and>
              t s' = Some (nt s - 1)"
    by blast
qed

text \<open>No step, five steps with \<open>dx = 0\<close>, and two steps on the five-node example.\<close>

theorem time_loop_iterates_witness:
  "nt (namespace 1 1 0.5 0 10 8 [10, 20, 5, 0, 8]) \<le> 0 \<and>
   time_loop binary64 (namespace 1 1 0.5 0 10 8 [10, 20, 5, 0, 8])
     = Inr (namespace 1 1 0.5 0 10 8 [10, 20, 5, 0, 8]) \<and>
   1 \<le> nt (namespace 1 0 0.5 5 10 8 [10, 20, 5, 0, 8]) \<and>
   loop_body binary64 ((namespace 1 0 0.5 5 10 8 [10, 20, 5, 0, 8])\<lparr>t := Some 0\<rparr>)
     = Inl ZeroDivisionError \<and>
   time_loop binary64 (namespace 1 0 0.5 5 10 8 [10, 20, 5, 0, 8]) = Inl ZeroDivisionError \<and>
   1 \<le> nt (namespace 1 1 0.5 2 10 8 [10, 20, 5, 0, 8]) \<and>
   loop_body binary64 ((namespace 1 1 0.5 2 10 8 [10, 20, 5, 0, 8])\<lparr>t := Some 0\<rparr>)
     = Inr ((namespace 1 1 0.5 2 10 8 [10, 7.5, 10, 6.5, 8])\<lparr>t := Some 0\<rparr>) \<and>
   time_loop binary64 (namespace 1 1 0.5 2 10 8 [10, 20, 5, 0, 8])
     = Inr ((namespace 1 1 0.5 2 10 8 [10, 10, 7, 9, 8])\<lparr>t := Some 1\<rparr>) \<and>
   ((\<lambda>a. stepped binary64 (Finite 0.5) ((namespace 1 1 0.5 2 10 8 [10, 20, 5, 0, 8])\<lparr>C := a\<rparr>)) ^^ 2)
       (map Finite [10, 20, 5, 0, 8])
     = map Finite [10, 10, 7, 9, 8]"
proof -
  let ?z = "namespace 1 1 0.5 0 10 8 [10, 20, 5, 0, 8]"
  let ?f = "namespace 1 0 0.5 5 10 8 [10, 20, 5, 0, 8]"
  let ?s = "namespace 1 1 0.5 2 10 8 [10, 20, 5, 0, 8]"
  let ?s1 = "(namespace 1 1 0.5 2 10 8 [10, 7.5, 10, 6.5, 8])\<lparr>t := Some 0\<rparr>"
  let ?s2 = "(namespace 1 1 0.5 2 10 8 [10, 10, 7, 9, 8])\<lparr>t := Some 1\<rparr>"
  have z: "nt ?z \<le> 0" by code_simp
  from time_loop_iterates [of ?z binary64] z have z': "time_loop binary64 ?z = Inr ?z" by blast
  have f: "1 \<le> nt ?f" "loop_body binary64 (?f\<lparr>t := Some 0\<rparr>) = Inl ZeroDivisionError"
    by code_simp+
  from time_loop_iterates [of ?f binary64 ZeroDivisionError] f
  have f': "time_loop binary64 ?f = Inl ZeroDivisionError" by blast
  have s: "1 \<le> nt ?s" "loop_body binary64 (?s\<lparr>t := Some 0\<rparr>) = Inr ?s1" by code_simp+
  have r: "time_loop binary64 ?s = Inr ?s2" by code_simp
  have k: "diffusion_number binary64 ?s = Inr (Finite 0.5)" by code_simp
  have c: "C ?s = map Finite [10, 20, 5, 0, 8]" "C ?s2 = map Finite [10, 10, 7, 9, 8]"
    "nat (nt ?s) = 2" by code_simp+
  from time_loop_iterates [of ?s binary64 _ ?s1] s obtain j s' where
    "diffusion_number binary64 ?s = Inr j" "time_loop binary64 ?s = Inr s'"
    "C s' = ((\<lambda>a. stepped binary64 j (?s\<lparr>C := a\<rparr>)) ^^ nat (nt ?s)) (C ?s)" by blast
  with k r have "C ?s2 = ((\<lambda>a. stepped binary64 (Finite 0.5) (?s\<lparr>C := a\<rparr>)) ^^ nat (nt ?s)) (C ?s)"
    by simp
  hence i: "((\<lambda>a. stepped binary64 (Finite 0.5) (?s\<lparr>C := a\<rparr>)) ^^ 2) (map Finite [10, 20, 5, 0, 8])
     = map Finite [10, 10, 7, 9, 8]"
    unfolding c by simp
  from z z' f f' s r i show ?thesis by (intro conjI)
qed

subsection \<open>C9: the step and the run as functions of their inputs\<close>

text \<open>
  C9. The one-step update and the whole integration are functions of their inputs alone. Two
  namespaces that agree on the initial field, \<^verbatim>\<open>D\<close>, \<^verbatim>\<open>dx\<close>, \<^verbatim>\<open>dt\<close>, \<^verbatim>\<open>nt\<close> and the two boundary
  values, whatever else they hold, give the loop body the same outcome and the loop the same
  outcome: the same exception or the same final field. For the run that starts at line 202
  the agreement on \<^verbatim>\<open>dt\<close> is not needed, since the run computes it. The step has no effect
  besides the new field: the namespace after the loop body is the namespace before it with
  \<^verbatim>\<open>C\<close> replaced. The loop leaves, besides the field, only its loop variable \<^verbatim>\<open>t\<close> behind.
\<close>

theorem step_and_run_pure:
  "(same_inputs s1 s2 \<longrightarrow>
      map_sum id C (loop_body A s1) = map_sum id C (loop_body A s2) \<and>
      map_sum id C (time_loop A s1) = map_sum id C (time_loop A s2)) \<and>
   (C u1 = C u2 \<and> D u1 = D u2 \<and> dx u1 = dx u2 \<and> nt u1 = nt u2 \<and>
    C_left u1 = C_left u2 \<and> C_right u1 = C_right u2 \<longrightarrow>
      map_sum id C (run A u1) = map_sum id C (run A u2)) \<and>
   (loop_body A s = Inr s' \<longrightarrow> s' = s\<lparr>C := C s'\<rparr>) \<and>
   (time_loop A s = Inr s' \<longrightarrow> s' = s\<lparr>C := C s', t := t s'\<rparr>)"
proof (intro conjI impI)
  assume "same_inputs s1 s2"
  thus "map_sum id C (loop_body A s1) = map_sum id C (loop_body A s2)"
    by (rule loop_body_same_inputs)
next
  assume a: "same_inputs s1 s2"
  hence "nt s1 = nt s2" by (simp add: same_inputs_def)
  with for_range_same_inputs [OF a, of A 0 "nat (nt s1)"]
  show "map_sum id C (time_loop A s1) = map_sum id C (time_loop A s2)"
    by (simp add: time_loop_def)
next
  assume h: "C u1 = C u2 \<and> D u1 = D u2 \<and> dx u1 = dx u2 \<and> nt u1 = nt u2 \<and>
    C_left u1 = C_left u2 \<and> C_right u1 = C_right u2"
  show "map_sum id C (run A u1) = map_sum id C (run A u2)"
  proof (cases "fpow2 A (dx u1)")
    case None
    with h show ?thesis by (simp add: run_def assign_dt_cases bind_err_simps)
  next
    case (Some p)
    show ?thesis
    proof (cases "is_zero A (D u1)")
      case True
      with Some h show ?thesis by (simp add: run_def assign_dt_cases bind_err_simps)
    next
      case False
      let ?v1 = "u1\<lparr>dt := fmul A (half A) (fdiv A p (D u1))\<rparr>"
      let ?v2 = "u2\<lparr>dt := fmul A (half A) (fdiv A p (D u2))\<rparr>"
      have v: "same_inputs ?v1 ?v2" using h by (simp add: same_inputs_def)
      have n: "nt ?v1 = nt ?v2" using h by simp
      have "map_sum id C (time_loop A ?v1) = map_sum id C (time_loop A ?v2)"
        using for_range_same_inputs [OF v, of A 0 "nat (nt ?v1)"] n
        by (simp only: time_loop_def)
      with False Some h show ?thesis by (simp add: run_def assign_dt_cases bind_err_simps)
    qed
  qed
next
  assume "loop_body A s = Inr s'"
  from loop_body_InrD [OF this] show "s' = s\<lparr>C := C s'\<rparr>" by auto
next
  assume "time_loop A s = Inr s'"
  hence "for_range A 0 (nat (nt s)) s = Inr s'" by (simp add: time_loop_def)
  thus "s' = s\<lparr>C := C s', t := t s'\<rparr>" by (rule for_range_only_C_and_t)
qed

text \<open>
  Two namespaces with the five-node example as input that differ in every variable the loop
  does not read (and, for the run, in \<^verbatim>\<open>dt\<close>).
\<close>

theorem step_and_run_pure_witness:
  "same_inputs (namespace 1 1 0.5 2 10 8 [10, 20, 5, 0, 8])
     ((namespace 1 1 0.5 2 10 8 [10, 20, 5, 0, 8])\<lparr>Lx := 7, x := [Finite 0, Finite 1], nx := 2, time := 3, t := Some 9\<rparr>) \<and>
   map_sum id C (loop_body binary64
     ((namespace 1 1 0.5 2 10 8 [10, 20, 5, 0, 8])\<lparr>Lx := 7, x := [Finite 0, Finite 1], nx := 2, time := 3, t := Some 9\<rparr>))
     = Inr (map Finite [10, 7.5, 10, 6.5, 8]) \<and>
   map_sum id C (time_loop binary64
     ((namespace 1 1 0.5 2 10 8 [10, 20, 5, 0, 8])\<lparr>Lx := 7, x := [Finite 0, Finite 1], nx := 2, time := 3, t := Some 9\<rparr>))
     = Inr (map Finite [10, 10, 7, 9, 8]) \<and>
   map_sum id C (run binary64
     ((namespace 1 1 99 2 10 8 [10, 20, 5, 0, 8])\<lparr>Lx := 7, x := [Finite 0, Finite 1], nx := 2, time := 3, t := Some 9\<rparr>))
     = Inr (map Finite [10, 10, 7, 9, 8]) \<and>
   loop_body binary64 (namespace 1 1 0.5 2 10 8 [10, 20, 5, 0, 8])
     = Inr (namespace 1 1 0.5 2 10 8 [10, 7.5, 10, 6.5, 8]) \<and>
   time_loop binary64 (namespace 1 1 0.5 2 10 8 [10, 20, 5, 0, 8])
     = Inr ((namespace 1 1 0.5 2 10 8 [10, 10, 7, 9, 8])\<lparr>t := Some 1\<rparr>)"
proof -
  let ?A = "namespace 1 1 0.5 2 10 8 [10, 20, 5, 0, 8]"
  let ?B = "?A\<lparr>Lx := 7, x := [Finite 0, Finite 1], nx := 2, time := 3, t := Some 9\<rparr>"
  let ?B' = "(namespace 1 1 99 2 10 8 [10, 20, 5, 0, 8])\<lparr>Lx := 7, x := [Finite 0, Finite 1], nx := 2, time := 3, t := Some 9\<rparr>"
  let ?A1 = "namespace 1 1 0.5 2 10 8 [10, 7.5, 10, 6.5, 8]"
  let ?A2 = "(namespace 1 1 0.5 2 10 8 [10, 10, 7, 9, 8])\<lparr>t := Some 1\<rparr>"
  have si: "same_inputs ?A ?B" by (simp add: same_inputs_def)
  have ri: "C ?A = C ?B' \<and> D ?A = D ?B' \<and> dx ?A = dx ?B' \<and> nt ?A = nt ?B' \<and>
    C_left ?A = C_left ?B' \<and> C_right ?A = C_right ?B'" by (simp add: namespace_def)
  have b: "loop_body binary64 ?A = Inr ?A1" by code_simp
  have l: "time_loop binary64 ?A = Inr ?A2" by code_simp
  have r: "map_sum id C (run binary64 ?A) = Inr (map Finite [10, 10, 7, 9, 8])" by code_simp
  have c: "C ?A1 = map Finite [10, 7.5, 10, 6.5, 8]" "C ?A2 = map Finite [10, 10, 7, 9, 8]"
    by code_simp+
  note p = step_and_run_pure [of ?A ?B binary64 ?A ?B' ?A ?A1]
  from p si have "map_sum id C (loop_body binary64 ?B) = map_sum id C (loop_body binary64 ?A)"
    by simp
  hence b': "map_sum id C (loop_body binary64 ?B) = Inr (map Finite [10, 7.5, 10, 6.5, 8])"
    unfolding b using c(1) by simp
  from p si have "map_sum id C (time_loop binary64 ?B) = map_sum id C (time_loop binary64 ?A)"
    by simp
  hence l': "map_sum id C (time_loop binary64 ?B) = Inr (map Finite [10, 10, 7, 9, 8])"
    unfolding l using c(2) by simp
  from p ri have "map_sum id C (run binary64 ?B') = map_sum id C (run binary64 ?A)" by simp
  hence r': "map_sum id C (run binary64 ?B') = Inr (map Finite [10, 10, 7, 9, 8])"
    unfolding r .
  from si b' l' r' b l show ?thesis by (intro conjI)
qed

subsection \<open>C10: the length of the field\<close>

text \<open>
  C10. Every step preserves the length of the field: whenever the loop body returns, the
  field it leaves has the length of the field it started from, and the same holds for the
  whole loop, after any number of steps.
\<close>

theorem step_preserves_length:
  "(loop_body A s = Inr s' \<longrightarrow> length (C s') = length (C s)) \<and>
   (time_loop A u = Inr u' \<longrightarrow> length (C u') = length (C u))"
proof (intro conjI impI)
  assume "loop_body A s = Inr s'"
  from loop_body_InrD [OF this] show "length (C s') = length (C s)"
    by (auto simp add: length_stepped)
next
  assume "time_loop A u = Inr u'"
  hence "for_range A 0 (nat (nt u)) u = Inr u'" by (simp add: time_loop_def)
  from for_range_frame [OF this] show "length (C u') = length (C u)" by simp
qed

text \<open>One step and two steps on the five-node example.\<close>

theorem step_preserves_length_witness:
  "loop_body binary64 (namespace 1 1 0.5 2 10 8 [10, 20, 5, 0, 8])
     = Inr (namespace 1 1 0.5 2 10 8 [10, 7.5, 10, 6.5, 8]) \<and>
   length (C (namespace 1 1 0.5 2 10 8 [10, 7.5, 10, 6.5, 8])) = 5 \<and>
   time_loop binary64 (namespace 1 1 0.5 2 10 8 [10, 20, 5, 0, 8])
     = Inr ((namespace 1 1 0.5 2 10 8 [10, 10, 7, 9, 8])\<lparr>t := Some 1\<rparr>) \<and>
   length (C ((namespace 1 1 0.5 2 10 8 [10, 10, 7, 9, 8])\<lparr>t := Some 1\<rparr>)) = 5"
proof -
  let ?s = "namespace 1 1 0.5 2 10 8 [10, 20, 5, 0, 8]"
  let ?s1 = "namespace 1 1 0.5 2 10 8 [10, 7.5, 10, 6.5, 8]"
  let ?s2 = "(namespace 1 1 0.5 2 10 8 [10, 10, 7, 9, 8])\<lparr>t := Some 1\<rparr>"
  have b: "loop_body binary64 ?s = Inr ?s1" by code_simp
  have l: "time_loop binary64 ?s = Inr ?s2" by code_simp
  have n: "length (C ?s) = 5" by code_simp
  from step_preserves_length [of binary64 ?s ?s1 ?s ?s2] b l n
  have "length (C ?s1) = 5" "length (C ?s2) = 5" by simp_all
  with b l show ?thesis by (intro conjI)
qed

end
